theory Spec2Isabelle
  imports Main "HOL-Library.Sublist" "HOL-Library.AList"
begin

section \<open>Strings, values and the regular expressions of the script\<close>

text \<open>
  The script under verification is the build-time asset pipeline (\<open>build-assets.js\<close>).
  A JavaScript string is modelled as a \<^typ>\<open>string\<close>: one \<^typ>\<open>char\<close> per code unit,
  for the code units below 256. A byte buffer is a list of bytes, also a \<^typ>\<open>char list\<close>.
\<close>

datatype jsval = JUndefined | JNull | JBool bool | JNum int | JStr string | JObject

text \<open>\<open>String.prototype.startsWith\<close>.\<close>

definition startsWith :: "string \<Rightarrow> string \<Rightarrow> bool" where
  "startsWith s p = (take (length p) s = p)"

text \<open>\<open>String.prototype.includes\<close>: some suffix of \<open>s\<close> starts with \<open>p\<close>.\<close>

fun str_includes :: "string \<Rightarrow> string \<Rightarrow> bool" where
  "str_includes [] p = (p = [])"
| "str_includes (c # s) p = (startsWith (c # s) p \<or> str_includes s p)"

text \<open>The character class \<open>[a-zA-Z0-9_-]\<close>.\<close>

definition lower_az :: "char \<Rightarrow> bool" where
  "lower_az c = (c \<in> set ''abcdefghijklmnopqrstuvwxyz'')"

definition upper_az :: "char \<Rightarrow> bool" where
  "upper_az c = (c \<in> set ''ABCDEFGHIJKLMNOPQRSTUVWXYZ'')"

definition digit09 :: "char \<Rightarrow> bool" where
  "digit09 c = (c \<in> set ''0123456789'')"

definition id_char :: "char \<Rightarrow> bool" where
  "id_char c = (lower_az c \<or> upper_az c \<or> digit09 c \<or> c = CHR ''_'' \<or> c = CHR ''-'')"

text \<open>
  The dot of a regular expression matches every character but a line terminator
  (of those, line feed and carriage return are code units below 256).
\<close>

definition re_dot :: "char \<Rightarrow> bool" where
  "re_dot c = (c \<noteq> CHR 0x0A \<and> c \<noteq> CHR 0x0D)"

text \<open>
  A greedy quantifier over a character class, followed by the rest of the pattern \<open>k\<close>:
  the matcher takes the longest run of class characters and gives characters back one at
  a time until the rest matches; \<open>lo\<close> is the least number of characters (1 for \<open>+\<close>,
  0 for \<open>*\<close>). The result is the text matched by the quantifier and what \<open>k\<close> returns.
\<close>

fun backtrack :: "nat \<Rightarrow> nat \<Rightarrow> string \<Rightarrow> (string \<Rightarrow> 'a option) \<Rightarrow> (string \<times> 'a) option" where
  "backtrack lo 0 s k =
     (if 0 < lo then None else map_option (\<lambda>r. ([], r)) (k s))"
| "backtrack lo (Suc n) s k =
     (if Suc n < lo then None
      else (case k (drop (Suc n) s) of
              Some r \<Rightarrow> Some (take (Suc n) s, r)
            | None \<Rightarrow> backtrack lo n s k))"

definition greedy :: "(char \<Rightarrow> bool) \<Rightarrow> nat \<Rightarrow> string \<Rightarrow> (string \<Rightarrow> 'a option) \<Rightarrow> (string \<times> 'a) option" where
  "greedy cls lo s k = backtrack lo (length (takeWhile cls s)) s k"

text \<open>A literal piece of a pattern, followed by the rest of the pattern.\<close>

definition lit :: "string \<Rightarrow> string \<Rightarrow> (string \<Rightarrow> 'a option) \<Rightarrow> 'a option" where
  "lit p s k = (if startsWith s p then k (drop (length p) s) else None)"

text \<open>The end of a pattern: the match succeeds, whatever follows.\<close>

definition accept :: "string \<Rightarrow> unit option" where
  "accept s = Some ()"

text \<open>An unanchored search tries every start position from the left.\<close>

fun search :: "(string \<Rightarrow> 'a option) \<Rightarrow> string \<Rightarrow> 'a option" where
  "search m [] = m []"
| "search m (c # s) = (case m (c # s) of Some r \<Rightarrow> Some r | None \<Rightarrow> search m s)"

subsection \<open>\<open>GOOGLE_DRIVE_PATTERNS\<close> and \<open>extractDriveFileId\<close>\<close>

text \<open>Each pattern returns its first capturing group.\<close>

definition pattern_view :: "string \<Rightarrow> string option" where
  "pattern_view s =
     map_option fst
       (lit ''https://drive.google.com/file/d/'' s
          (\<lambda>r. greedy id_char 1 r (\<lambda>t. lit ''/view'' t accept)))"

definition pattern_open :: "string \<Rightarrow> string option" where
  "pattern_open s =
     map_option fst
       (lit ''https://drive.google.com/open?id='' s (\<lambda>r. greedy id_char 1 r accept))"

definition pattern_docs :: "string \<Rightarrow> string option" where
  "pattern_docs s =
     map_option (\<lambda>(dots, cap, u). cap)
       (lit ''https://docs.google.com/'' s
          (\<lambda>r. greedy re_dot 0 r (\<lambda>t. lit ''/d/'' t (\<lambda>u. greedy id_char 1 u accept))))"

definition GOOGLE_DRIVE_PATTERNS :: "(string \<Rightarrow> string option) list" where
  "GOOGLE_DRIVE_PATTERNS = [pattern_view, pattern_open, pattern_docs]"

text \<open>The loop over the patterns: the first pattern that matches anywhere decides.\<close>

fun first_match :: "(string \<Rightarrow> string option) list \<Rightarrow> string \<Rightarrow> string option" where
  "first_match [] url = None"
| "first_match (p # ps) url =
     (case search p url of Some fid \<Rightarrow> Some fid | None \<Rightarrow> first_match ps url)"

text \<open>\<open>None\<close> is JavaScript's \<open>null\<close>. Only a non-empty string passes the guard.\<close>

fun extractDriveFileId :: "jsval \<Rightarrow> string option" where
  "extractDriveFileId (JStr url) =
     (if url = [] then None else first_match GOOGLE_DRIVE_PATTERNS url)"
| "extractDriveFileId v = None"


subsection \<open>\<open>createSafeFilename\<close>\<close>

text \<open>
  \<open>toLowerCase\<close> on code units below 256: the letters A to Z, and the capital letters of
  the Latin-1 block (C0 to DE, but D7, the multiplication sign).
\<close>

definition to_lower_char :: "char \<Rightarrow> char" where
  "to_lower_char c =
     (let n = (of_char c :: nat)
      in if (65 \<le> n \<and> n \<le> 90) \<or> (192 \<le> n \<and> n \<le> 222 \<and> n \<noteq> 215)
         then char_of (n + 32) else c)"

definition toLowerCase :: "string \<Rightarrow> string" where
  "toLowerCase s = map to_lower_char s"

definition lower_alnum :: "char \<Rightarrow> bool" where
  "lower_alnum c = (lower_az c \<or> digit09 c)"

text \<open>\<open>.replace(/[^a-z0-9]+/g, "-")\<close>: every maximal run of other characters becomes one dash.\<close>

function replace_non_alnum :: "string \<Rightarrow> string" where
  "replace_non_alnum [] = []"
| "replace_non_alnum (c # s) =
     (if lower_alnum c then c # replace_non_alnum s
      else CHR ''-'' # replace_non_alnum (dropWhile (\<lambda>d. \<not> lower_alnum d) s))"
  by pat_completeness auto
termination
  by (relation "measure length") (auto simp: length_dropWhile_le less_Suc_eq_le)

text \<open>
  \<open>.replace(/^-+|-+$/g, "")\<close>: the run of dashes at the start and the run of dashes at the
  end are removed.
\<close>

definition strip_dashes :: "string \<Rightarrow> string" where
  "strip_dashes s = rev (dropWhile (\<lambda>c. c = CHR ''-'') (rev (dropWhile (\<lambda>c. c = CHR ''-'') s)))"

text \<open>A template literal prints \<open>null\<close> as the text \<open>null\<close>.\<close>

definition template_id :: "string option \<Rightarrow> string" where
  "template_id fileId = (case fileId of None \<Rightarrow> ''null'' | Some i \<Rightarrow> i)"

definition safeName :: "string \<Rightarrow> string" where
  "safeName projectName = strip_dashes (replace_non_alnum (toLowerCase projectName))"

definition createSafeFilename :: "string \<Rightarrow> string \<Rightarrow> jsval \<Rightarrow> string \<Rightarrow> string" where
  "createSafeFilename projectName fieldName originalUrl tempExtension =
     (let fileId = extractDriveFileId originalUrl
      in safeName projectName @ ''-'' @ fieldName @ ''-'' @ template_id fileId @ tempExtension)"

section \<open>The content-type sniffer\<close>

type_synonym buffer = "char list"

datatype error =
    HtmlErrorPage        \<comment> \<open>Downloaded file appears to be an HTML error page, not media content\<close>
  | HttpStatus nat       \<comment> \<open>HTTP status: message\<close>
  | FileTooLarge         \<comment> \<open>File too large: exceeds the limit\<close>
  | DownloadedHtml       \<comment> \<open>Downloaded HTML instead of media file\<close>
  | DownloadTimeout      \<comment> \<open>Download timeout (60s)\<close>
  | RequestError string  \<comment> \<open>an error event of the request\<close>

text \<open>\<open>Buffer.prototype.indexOf\<close>: the first index of an occurrence; \<open>None\<close> is \<open>-1\<close>.\<close>

fun indexOf :: "buffer \<Rightarrow> buffer \<Rightarrow> nat option" where
  "indexOf [] p = (if p = [] then Some 0 else None)"
| "indexOf (c # s) p =
     (if startsWith (c # s) p then Some 0 else map_option Suc (indexOf s p))"

text \<open>\<open>buffer.slice(a, b)\<close> for \<open>0 \<le> a \<le> b\<close>; the end is clipped to the buffer.\<close>

definition slice :: "buffer \<Rightarrow> nat \<Rightarrow> nat \<Rightarrow> buffer" where
  "slice buf a b = take (b - a) (drop a buf)"

text \<open>\<open>toString("hex")\<close>: two lower-case hexadecimal digits for each byte.\<close>

definition hex_digit :: "nat \<Rightarrow> char" where
  "hex_digit n = ''0123456789abcdef'' ! n"

definition hex_of :: "buffer \<Rightarrow> string" where
  "hex_of buf = concat (map (\<lambda>c. [hex_digit (of_char c div 16), hex_digit (of_char c mod 16)]) buf)"

text \<open>\<open>toString("ascii")\<close> clears the highest bit of every byte.\<close>

fun clear_high_bit :: "char \<Rightarrow> char" where
  "clear_high_bit (Char b0 b1 b2 b3 b4 b5 b6 b7) = Char b0 b1 b2 b3 b4 b5 b6 False"

definition ascii_of :: "buffer \<Rightarrow> string" where
  "ascii_of buf = map clear_high_bit buf"

text \<open>
  \<open>toString()\<close> decodes UTF-8. The texts it is compared with and searched for here are ASCII,
  and a byte below 128 always decodes to itself while any other byte decodes to a character
  above 127: the comparisons and searches are those of the bytes.
\<close>

definition PNG_MAGIC :: buffer where
  "PNG_MAGIC = [CHR 0x89, CHR 0x50, CHR 0x4E, CHR 0x47, CHR 0x0D, CHR 0x0A, CHR 0x1A, CHR 0x0A]"

definition JPEG_MAGIC :: buffer where
  "JPEG_MAGIC = [CHR 0xFF, CHR 0xD8]"

text \<open>The first test of \<open>detectFileType\<close>: \<open>ftyp\<close> found at an index of at most 12.\<close>

definition ftyp_brand :: "buffer \<Rightarrow> buffer option" where
  "ftyp_brand buf =
     (case indexOf buf ''ftyp'' of
        None \<Rightarrow> None
      | Some ftypIndex \<Rightarrow>
          if ftypIndex \<le> 12 then Some (slice buf (ftypIndex + 4) (ftypIndex + 8)) else None)"

definition video_ext :: "buffer \<Rightarrow> string" where
  "video_ext brand =
     (if str_includes brand ''mp4'' \<or> str_includes brand ''isom'' \<or> str_includes brand ''M4V'' \<or>
         str_includes brand ''mp41'' \<or> str_includes brand ''mp42''
      then ''.mp4''
      else if str_includes brand ''qt'' \<or> str_includes brand ''mov'' then ''.mov''
      else ''.mp4'')"

text \<open>The tests on the leading bytes, in the order of the source.\<close>

definition magic_signature :: "buffer \<Rightarrow> string option" where
  "magic_signature buf =
     (if slice buf 0 3 = ''AVI'' then Some ''.avi''
      else if slice buf 0 4 = ''RIFF'' \<and> slice buf 8 12 = ''AVI '' then Some ''.avi''
      else if hex_of (slice buf 0 4) = ''1a45dfa3'' then Some ''.webm''
      else if hex_of (slice buf 0 2) = ''ffd8'' then Some ''.jpg''
      else if hex_of (slice buf 0 8) = ''89504e470d0a1a0a'' then Some ''.png''
      else if slice buf 0 6 = ''GIF87a'' \<or> slice buf 0 6 = ''GIF89a'' then Some ''.gif''
      else if slice buf 0 4 = ''RIFF'' \<and> slice buf 8 12 = ''WEBP'' then Some ''.webp''
      else None)"

definition detectFileType :: "buffer \<Rightarrow> error + string" where
  "detectFileType buf =
     (case ftyp_brand buf of
        Some brand \<Rightarrow> Inr (video_ext brand)
      | None \<Rightarrow>
         (case magic_signature buf of
            Some ext \<Rightarrow> Inr ext
          | None \<Rightarrow>
             if length buf > 1024 * 1024 then Inr ''.mp4''
             else
               let bufferSize = length buf;
                   bufferStr = hex_of (slice buf 0 (min 100 bufferSize))
               in if bufferSize > 10000 \<and>
                     (str_includes bufferStr ''66747970'' \<or> str_includes bufferStr ''6d6f6f76'' \<or>
                      str_includes bufferStr ''6d646174'')
                  then Inr ''.mp4''
                  else
                    let textContent = ascii_of (slice buf 0 (min 100 bufferSize))
                    in if bufferSize < 5000 \<and>
                          (str_includes textContent ''<html>'' \<or> str_includes textContent ''<!DOCTYPE'')
                       then Inl HtmlErrorPage
                       else Inr ''.jpg''))"

section \<open>The file system and the network\<close>

text \<open>
  Every file the script touches lies in \<open>ASSETS_DIR\<close>: the directory is modelled as the list
  of its entries, a name and the content, in the order in which \<open>readdirSync\<close> lists them. A
  path \<open>path.join(ASSETS_DIR, name)\<close> is modelled by \<open>name\<close>: the directory part is fixed and is
  assumed to hold no dot, so that \<open>path.extname\<close> and the replacement of the extension work on
  the name alone.
\<close>

type_synonym fs = "(string \<times> buffer) list"


definition existsSync :: "fs \<Rightarrow> string \<Rightarrow> bool" where
  "existsSync d name = (map_of d name \<noteq> None)"


text \<open>Creating or overwriting a file, removing a file, renaming a file over another.\<close>

definition write_file :: "fs \<Rightarrow> string \<Rightarrow> buffer \<Rightarrow> fs" where
  "write_file d name c = AList.update name c d"

definition unlink :: "fs \<Rightarrow> string \<Rightarrow> fs" where
  "unlink d name = AList.delete name d"

definition renameSync :: "fs \<Rightarrow> string \<Rightarrow> string \<Rightarrow> fs" where
  "renameSync d old new =
     (case map_of d old of
        None \<Rightarrow> d
      | Some c \<Rightarrow> AList.update new c (AList.delete old d))"

text \<open>
  What the network gives for one request: a response (status, the two headers the script
  reads, the chunks of the body, and whether the body ends or the server stalls until the
  60 seconds timer fires), an error event of the request, or no response before the timer.
\<close>

record response =
  statusCode :: nat
  location :: "string option"
  contentDisposition :: "string option"
  chunks :: "buffer list"
  complete :: bool

datatype reply = Response response | ErrorEvent string | NoResponse

text \<open>
  The state of a run: the directory and the URLs requested so far. The server is a function
  of the requests made before and of the URL requested, so that it may answer the same URL
  differently over time.
\<close>

record world =
  files :: fs
  requests :: "string list"

type_synonym server = "string list \<Rightarrow> string \<Rightarrow> reply"

text \<open>
  How a call of \<open>downloadFile\<close> ends: the promise resolves with a path, the loop over the
  attempts ends without any attempt (the function then returns \<open>undefined\<close>), the promise is
  rejected, or an exception is thrown in an event handler, where no promise catches it: the
  process ends.
\<close>

datatype outcome = Resolved string | ResolvedUndefined | Rejected error | Crashed

subsection \<open>Paths and replacement\<close>

text \<open>\<open>path.extname\<close>: from the last dot of the last segment, unless the segment starts with it.\<close>

definition last_segment :: "string \<Rightarrow> string" where
  "last_segment p =
     rev (takeWhile (\<lambda>c. c \<noteq> CHR ''/'') (dropWhile (\<lambda>c. c = CHR ''/'') (rev p)))"

definition extname :: "string \<Rightarrow> string" where
  "extname p =
     (let seg = last_segment p;
          e = rev (takeWhile (\<lambda>c. c \<noteq> CHR ''.'') (rev seg))
      in if CHR ''.'' \<notin> set seg then []
         else if Suc (length e) = length seg then []
         else if seg = ''..'' then []
         else CHR ''.'' # e)"


text \<open>\<open>s.replace(pat, rep)\<close> with a string pattern: the first occurrence is replaced.\<close>

fun replace_first :: "string \<Rightarrow> string \<Rightarrow> string \<Rightarrow> string" where
  "replace_first [] pat rep = (if pat = [] then rep else [])"
| "replace_first (c # s) pat rep =
     (if startsWith (c # s) pat then rep @ drop (length pat) (c # s)
      else c # replace_first s pat rep)"


section \<open>The fetch engine: \<open>downloadFile\<close>\<close>

definition MAX_FILE_SIZE :: nat where
  "MAX_FILE_SIZE = 100 * 1024 * 1024"

definition is_redirect :: "nat \<Rightarrow> bool" where
  "is_redirect status = (status \<in> set [301, 302, 303, 307, 308])"

text \<open>
  The file name of the \<open>Content-Disposition\<close> header:
  \<open>/filename[^;=\n]*=((['"]).*?\2|[^;\n]*)/\<close>, then the quotes are removed from the group.
\<close>

definition is_quote :: "char \<Rightarrow> bool" where
  "is_quote c = (c = CHR 0x27 \<or> c = CHR 0x22)"

definition quoted_value :: "string \<Rightarrow> string option" where
  "quoted_value t =
     (case t of
        [] \<Rightarrow> None
      | q # rest \<Rightarrow>
          if is_quote q then
            (let mid = takeWhile (\<lambda>c. c \<noteq> q) rest
             in if length mid < length rest \<and> list_all re_dot mid then Some (q # mid @ [q])
                else None)
          else None)"

definition disposition_value :: "string \<Rightarrow> string option" where
  "disposition_value u =
     (case quoted_value u of
        Some v \<Rightarrow> Some v
      | None \<Rightarrow> Some (takeWhile (\<lambda>c. c \<noteq> CHR '';'' \<and> c \<noteq> CHR 0x0A) u))"

definition filename_pattern :: "string \<Rightarrow> string option" where
  "filename_pattern s =
     map_option snd
       (lit ''filename'' s
          (\<lambda>r. greedy (\<lambda>c. c \<noteq> CHR '';'' \<and> c \<noteq> CHR ''='' \<and> c \<noteq> CHR 0x0A) 0 r
                 (\<lambda>t. lit ''='' t disposition_value)))"

text \<open>
  \<open>None\<close> stands for a falsy \<open>originalFilename\<close>: the \<open>null\<close> the variable starts with, and
  the empty name that is left when the group holds quotes only.
\<close>

definition originalFilename_of :: "string option \<Rightarrow> string option" where
  "originalFilename_of header =
     (case header of
        None \<Rightarrow> None
      | Some cd \<Rightarrow>
          if cd = [] then None
          else (case search filename_pattern cd of
                  None \<Rightarrow> None
                | Some g \<Rightarrow>
                    if g = [] \<or> filter (\<lambda>c. \<not> is_quote c) g = [] then None
                    else Some (filter (\<lambda>c. \<not> is_quote c) g)))"

text \<open>
  The tokens of the virus-scan page: \<open>/name="confirm"\s+value="([^"]+)"/\<close> and the same for
  \<open>uuid\<close>. The page is read as UTF-8; the model reads it by bytes, which is the same text
  when the first 1000 bytes are ASCII.
\<close>

definition re_space :: "char \<Rightarrow> bool" where
  "re_space c = (c \<in> set [CHR 0x20, CHR 0x09, CHR 0x0A, CHR 0x0B, CHR 0x0C, CHR 0x0D])"

definition hidden_field :: "string \<Rightarrow> string \<Rightarrow> string option" where
  \<open>hidden_field name s =
     map_option (\<lambda>(sp, v, u). v)
       (lit (''name="'' @ name @ ''"'') s
          (\<lambda>r. greedy re_space 1 r
                 (\<lambda>t. lit ''value="'' t
                        (\<lambda>u. greedy (\<lambda>c. c \<noteq> CHR 0x22) 1 u (\<lambda>v. lit ''"'' v accept)))))\<close>

definition looks_like_html :: "string \<Rightarrow> bool" where
  "looks_like_html fileContent =
     (str_includes fileContent ''<html'' \<or> str_includes fileContent ''<!DOCTYPE'' \<or>
      str_includes fileContent ''<title>'')"

definition virus_scan_warning :: "string \<Rightarrow> bool" where
  "virus_scan_warning fileContent =
     (str_includes fileContent ''virus scan warning'' \<or>
      str_includes fileContent ''Google Drive can't scan this file'')"

definition directUrl_of :: "string option \<Rightarrow> string \<Rightarrow> string \<Rightarrow> string" where
  "directUrl_of fileId confirmValue uuidValue =
     ''https://drive.usercontent.google.com/download?id='' @ template_id fileId @
     ''&export=download&confirm='' @ confirmValue @ ''&uuid='' @ uuidValue"

text \<open>
  The \<open>data\<close> handler, chunk after chunk: the content written to the file, or \<open>None\<close> as soon
  as the running total exceeds the limit.
\<close>

fun receive :: "nat \<Rightarrow> buffer \<Rightarrow> buffer list \<Rightarrow> buffer option" where
  "receive totalSize written [] = Some written"
| "receive totalSize written (chunk # rest) =
     (if totalSize + length chunk > MAX_FILE_SIZE then None
      else receive (totalSize + length chunk) (written @ chunk) rest)"

text \<open>
  A call of \<open>downloadFile\<close> from inside a promise, as a parameter: the world, the URL, the
  path, the number of retries and the identifier. \<open>None\<close>: the call does not return.
\<close>

type_synonym download =
  "world \<Rightarrow> string \<Rightarrow> string \<Rightarrow> nat \<Rightarrow> string option \<Rightarrow> (world \<times> outcome) option"

text \<open>The name the file ends with, after the \<open>finish\<close> handler has renamed it.\<close>

definition finalize :: "world \<Rightarrow> string \<Rightarrow> buffer \<Rightarrow> string option \<Rightarrow> world \<times> outcome" where
  "finalize w filepath fileBuffer originalFilename =
     (case originalFilename of
        Some name \<Rightarrow>
          (let originalExt = extname name;
               newFilepath = replace_first filepath (extname filepath) originalExt
           in if originalExt \<noteq> [] \<and> newFilepath \<noteq> filepath
              then (w\<lparr>files := renameSync (files w) filepath newFilepath\<rparr>, Resolved newFilepath)
              else (w, Resolved filepath))
      | None \<Rightarrow>
          (case detectFileType fileBuffer of
             Inl e \<Rightarrow> (w, Crashed)
           | Inr detectedExt \<Rightarrow>
               (let currentExt = extname filepath
                in if currentExt \<noteq> detectedExt
                   then (let newFilepath = replace_first filepath currentExt detectedExt
                         in (w\<lparr>files := renameSync (files w) filepath newFilepath\<rparr>,
                             Resolved newFilepath))
                   else (w, Resolved filepath))))"

text \<open>
  The virus-scan branch of the \<open>finish\<close> handler: both tokens, when the page has the
  warning and both patterns match.
\<close>

definition interstitial_tokens :: "string \<Rightarrow> (string \<times> string) option" where
  "interstitial_tokens fileContent =
     (if virus_scan_warning fileContent then
        (case search (hidden_field ''confirm'') fileContent of
           None \<Rightarrow> None
         | Some confirmValue \<Rightarrow>
             (case search (hidden_field ''uuid'') fileContent of
                None \<Rightarrow> None
              | Some uuidValue \<Rightarrow> Some (confirmValue, uuidValue)))
      else None)"

text \<open>The \<open>finish\<close> handler of the write stream; \<open>w\<close> holds the file as written.\<close>

definition on_finish ::
  "download \<Rightarrow> world \<Rightarrow> string \<Rightarrow> string option \<Rightarrow> string option \<Rightarrow> (world \<times> outcome) option" where
  "on_finish dl w filepath fileId originalFilename =
     (case map_of (files w) filepath of
        None \<Rightarrow> Some (w, Crashed)
      | Some fileBuffer \<Rightarrow>
         (let fileContent = take (min 1000 (length fileBuffer)) fileBuffer
          in if looks_like_html fileContent then
               (case interstitial_tokens fileContent of
                  Some (confirmValue, uuidValue) \<Rightarrow>
                    dl (w\<lparr>files := unlink (files w) filepath\<rparr>)
                       (directUrl_of fileId confirmValue uuidValue) filepath 1 fileId
                | None \<Rightarrow> Some (w\<lparr>files := unlink (files w) filepath\<rparr>, Rejected DownloadedHtml))
             else Some (finalize w filepath fileBuffer originalFilename)))"

text \<open>
  One attempt, the body of the promise: the write stream creates the file, the request is
  sent, and the response is handled.
\<close>

definition attempt ::
  "download \<Rightarrow> server \<Rightarrow> world \<Rightarrow> string \<Rightarrow> string \<Rightarrow> nat \<Rightarrow> string option
     \<Rightarrow> (world \<times> outcome) option" where
  "attempt dl srv w url filepath retries fileId =
     (let w1 = w\<lparr>files := write_file (files w) filepath [], requests := requests w @ [url]\<rparr>
      in case srv (requests w) url of
           ErrorEvent msg \<Rightarrow> Some (w1, Rejected (RequestError msg))
         | NoResponse \<Rightarrow> Some (w1, Rejected DownloadTimeout)
         | Response r \<Rightarrow>
             if is_redirect (statusCode r) then
               (case location r of
                  None \<Rightarrow> Some (w1, Crashed)
                | Some redirectUrl \<Rightarrow> dl w1 redirectUrl filepath retries fileId)
             else if statusCode r \<noteq> 200 then Some (w1, Rejected (HttpStatus (statusCode r)))
             else
               (case receive 0 [] (chunks r) of
                  None \<Rightarrow> Some (w1\<lparr>files := unlink (files w1) filepath\<rparr>, Rejected FileTooLarge)
                | Some written \<Rightarrow>
                    (let w2 = w1\<lparr>files := write_file (files w1) filepath written\<rparr>
                     in if complete r
                        then on_finish dl w2 filepath fileId
                               (originalFilename_of (contentDisposition r))
                        else Some (w2, Rejected DownloadTimeout))))"

text \<open>
  The loop over the attempts. The delay between two attempts, 1000 ms times the number of
  the attempt, changes neither the directory nor the requests.
\<close>

function retry_loop ::
  "(world \<Rightarrow> (world \<times> outcome) option) \<Rightarrow> string \<Rightarrow> nat \<Rightarrow> nat \<Rightarrow> world
     \<Rightarrow> (world \<times> outcome) option" where
  "retry_loop promise filepath retries n w =
     (if n \<le> retries then
        (case promise w of
           None \<Rightarrow> None
         | Some (w', Rejected e) \<Rightarrow>
             if n = retries then Some (w', Rejected e)
             else retry_loop promise filepath retries (Suc n) w'
         | Some (w', Crashed) \<Rightarrow> Some (w', Crashed)
         | Some (w', Resolved finalPath) \<Rightarrow>
             Some (w', Resolved (if finalPath = [] then filepath else finalPath))
         | Some (w', ResolvedUndefined) \<Rightarrow> Some (w', Resolved filepath))
      else Some (w, ResolvedUndefined))"
  by pat_completeness auto
termination
  by (relation "measure (\<lambda>(promise, filepath, retries, n, w). Suc retries - n)") auto

text \<open>
  \<open>downloadFile\<close>. The recursion through redirects and virus-scan pages has no bound in the
  source: the first argument is the number of nested calls allowed, and \<open>None\<close> is returned
  when it does not suffice.
\<close>

fun downloadFile :: "nat \<Rightarrow> server \<Rightarrow> download" where
  "downloadFile 0 srv w url filepath retries fileId = None"
| "downloadFile (Suc fuel) srv w url filepath retries fileId =
     (let fileId' = (if fileId = None \<or> fileId = Some [] then extractDriveFileId (JStr url)
                     else fileId)
      in retry_loop (\<lambda>w'. attempt (downloadFile fuel srv) srv w' url filepath retries fileId')
           filepath retries 1 w)"

section \<open>The orchestrator: \<open>processAssets\<close> and \<open>syncFilenames\<close>\<close>

text \<open>
  A project as \<open>fetchProjectData\<close> builds it: every key holds a string, the empty string for
  a missing cell. \<open>cells\<close> holds the keys other than \<open>projectName\<close>.
\<close>

record project =
  projectName :: string
  cells :: "string \<Rightarrow> string"

definition mediaFields :: "string list" where
  "mediaFields = [''thumbnailImage'', ''workImage1'', ''workImage2'', ''workImage3'',
                  ''workImage4'', ''workImage5'']"







definition name_of :: "project \<Rightarrow> string" where
  "name_of p = (if projectName p = [] then ''untitled'' else projectName p)"



subsection \<open>\<open>syncFilenames\<close>\<close>




subsection \<open>\<open>processAssets\<close>, up to the writing of the project data\<close>



section \<open>Auxiliary definitions of the proofs\<close>

text \<open>What one attempt on a body above the limit does to the world.\<close>

definition too_large_step :: "string \<Rightarrow> string \<Rightarrow> world \<Rightarrow> world" where
  "too_large_step url filepath w =
     w\<lparr>files := unlink (write_file (files w) filepath []) filepath, requests := requests w @ [url]\<rparr>"












text \<open>A value that \<open>processAssets\<close> takes for a Drive link.\<close>

definition recognised :: "string \<Rightarrow> bool" where
  "recognised url = (url \<noteq> [] \<and> extractDriveFileId (JStr url) \<noteq> None)"












definition recognised_fields :: "project \<Rightarrow> string list \<Rightarrow> nat" where
  "recognised_fields p fs = length (filter (\<lambda>f. recognised (cells p f)) fs)"




section \<open>Concrete inputs used in the examples\<close>

text \<open>A buffer of 119 bytes with the doctype marker after the first 100 bytes.\<close>

definition late_doctype :: buffer where
  "late_doctype = ''xxxxxxxxxxxxxxxxxxxxxxxxxxxxxxxxxxxxxxxxxxxxxxxxxxxxxxxxxxxxxxxxxxxxxxxxxxxxxxxxxxxxxxxxxxxxxxxxxxxxxxxx<!DOCTYPE html>''"


text \<open>An empty directory with no request made, and some replies.\<close>

definition w0 :: world where
  "w0 = \<lparr>files = [], requests = []\<rparr>"

definition ok :: "buffer \<Rightarrow> reply" where
  "ok body = Response \<lparr>statusCode = 200, location = None, contentDisposition = None,
                        chunks = [body], complete = True\<rparr>"

definition redirect_to :: "string \<Rightarrow> reply" where
  "redirect_to u = Response \<lparr>statusCode = 302, location = Some u, contentDisposition = None,
                              chunks = [], complete = True\<rparr>"



text \<open>A project with one Drive link.\<close>

definition sample :: project where
  "sample = \<lparr>projectName = ''Sample'',
              cells = (\<lambda>k. if k = ''thumbnailImage''
                            then ''https://drive.google.com/file/d/FILEID123/view'' else [])\<rparr>"

text \<open>A server that redirects every request to the URL requested.\<close>

definition always_redirect :: server where
  "always_redirect log url = redirect_to url"

text \<open>A server that redirects the first \<open>k\<close> requests and then serves a PNG image.\<close>

definition png_data :: buffer where
  "png_data = PNG_MAGIC @ ''data''"

definition redirect_chain :: "nat \<Rightarrow> server" where
  "redirect_chain k log url = (if length log < k then redirect_to url else ok png_data)"

text \<open>A body of one chunk, one byte above the limit.\<close>

definition oversized :: reply where
  "oversized = ok (replicate (MAX_FILE_SIZE + 1) (CHR ''x''))"

definition is_resolved :: "outcome \<Rightarrow> bool" where
  "is_resolved r = (case r of Resolved p \<Rightarrow> True | _ \<Rightarrow> False)"

text \<open>The download URL and the temporary file name of the sample project's thumbnail.\<close>

definition sample_url :: string where
  "sample_url = ''https://drive.google.com/uc?export=download&id=FILEID123''"

definition sample_tmp :: string where
  "sample_tmp = ''sample-thumbnailImage-FILEID123.tmp''"





text \<open>The Drive link of the sample project.\<close>

definition sample_link :: string where
  "sample_link = ''https://drive.google.com/file/d/FILEID123/view''"








text \<open>A project with the same Drive link in two media fields, and what a run makes of it.\<close>

definition twice :: project where
  "twice = \<lparr>projectName = ''Sample'',
             cells = (\<lambda>k. if k = ''thumbnailImage'' \<or> k = ''workImage1''
                           then ''https://drive.google.com/file/d/FILEID123/view'' else [])\<rparr>"





section \<open>Identifier extraction\<close>

lemma startsWith_iff: "startsWith s p \<longleftrightarrow> (\<exists>t. s = p @ t)"
  unfolding startsWith_def
  by (metis append_eq_conv_conj append_take_drop_id)

lemma str_includes_iff: "str_includes s p \<longleftrightarrow> (\<exists>pre post. s = pre @ p @ post)"
proof (induction s)
  case Nil
  then show ?case by auto
next
  case (Cons c s)
  show ?case
  proof
    assume "str_includes (c # s) p"
    then consider "startsWith (c # s) p" | "str_includes s p" by auto
    then show "\<exists>pre post. c # s = pre @ p @ post"
    proof cases
      case 1
      then obtain t where "c # s = p @ t" using startsWith_iff by blast
      then have "c # s = [] @ p @ t" by simp
      then show ?thesis by blast
    next
      case 2
      then obtain pre post where "s = pre @ p @ post" using Cons.IH by blast
      then have "c # s = (c # pre) @ p @ post" by simp
      then show ?thesis by blast
    qed
  next
    assume "\<exists>pre post. c # s = pre @ p @ post"
    then obtain pre post where e: "c # s = pre @ p @ post" by blast
    show "str_includes (c # s) p"
    proof (cases pre)
      case Nil
      then have "startsWith (c # s) p" using e startsWith_iff by auto
      then show ?thesis by simp
    next
      case (Cons a pre')
      then have "s = pre' @ p @ post" using e by simp
      then have "str_includes s p" using Cons.IH by blast
      then show ?thesis by simp
    qed
  qed
qed

lemma search_Some: "search m s = Some r \<Longrightarrow> \<exists>pre t. s = pre @ t \<and> m t = Some r"
proof (induction s)
  case Nil
  then show ?case by simp
next
  case (Cons c s)
  show ?case
  proof (cases "m (c # s)")
    case None
    then have "search m s = Some r" using Cons.prems by simp
    then obtain pre t where "s = pre @ t" "m t = Some r" using Cons.IH by blast
    then have "c # s = (c # pre) @ t \<and> m t = Some r" by simp
    then show ?thesis by blast
  next
    case (Some a)
    then have "a = r" using Cons.prems by simp
    then have "c # s = [] @ (c # s) \<and> m (c # s) = Some r" using Some by simp
    then show ?thesis by blast
  qed
qed

lemma search_None: "search m (pre @ t) = None \<Longrightarrow> m t = None"
proof (induction pre)
  case Nil
  then show ?case by (cases t) (auto split: option.splits)
next
  case (Cons c pre)
  then show ?case by (auto split: option.splits)
qed

lemma backtrack_Some:
  "backtrack lo n s k = Some (x, r) \<Longrightarrow> \<exists>j. lo \<le> j \<and> j \<le> n \<and> x = take j s \<and> k (drop j s) = Some r"
proof (induction n)
  case 0
  then show ?case by (auto split: if_splits)
next
  case (Suc n)
  show ?case
  proof (cases "k (drop (Suc n) s)")
    case None
    then have "backtrack lo n s k = Some (x, r)" using Suc.prems
      by (auto split: if_splits)
    then obtain j where "lo \<le> j" "j \<le> n" "x = take j s" "k (drop j s) = Some r"
      using Suc.IH by blast
    then have "lo \<le> j \<and> j \<le> Suc n \<and> x = take j s \<and> k (drop j s) = Some r" by simp
    then show ?thesis by blast
  next
    case (Some a)
    then have "lo \<le> Suc n \<and> x = take (Suc n) s \<and> k (drop (Suc n) s) = Some r"
      using Suc.prems by (auto split: if_splits)
    then show ?thesis by blast
  qed
qed

lemma backtrack_None:
  "backtrack lo n s k = None \<Longrightarrow> lo \<le> j \<Longrightarrow> j \<le> n \<Longrightarrow> k (drop j s) = None"
proof (induction n)
  case 0
  then show ?case by (auto split: if_splits)
next
  case (Suc n)
  show ?case
  proof (cases "j = Suc n")
    case True
    then show ?thesis using Suc.prems by (auto split: if_splits option.splits)
  next
    case False
    then have "j \<le> n" using Suc.prems by simp
    moreover have "backtrack lo n s k = None" using Suc.prems
      by (auto split: if_splits option.splits)
    ultimately show ?thesis using Suc.IH Suc.prems by blast
  qed
qed

lemma take_takeWhile_all:
  "j \<le> length (takeWhile P s) \<Longrightarrow> \<forall>c\<in>set (take j s). P c"
proof (induction s arbitrary: j)
  case Nil
  then show ?case by simp
next
  case (Cons a s)
  show ?case
  proof (cases j)
    case 0
    then show ?thesis by simp
  next
    case (Suc i)
    then have "P a" using Cons.prems by (auto split: if_splits)
    moreover have "i \<le> length (takeWhile P s)" using Cons.prems Suc by (auto split: if_splits)
    ultimately show ?thesis using Cons.IH Suc by simp
  qed
qed

lemma greedy_Some:
  assumes "greedy cls lo s k = Some (x, r)"
  shows "lo \<le> length x \<and> (\<forall>c\<in>set x. cls c) \<and> (\<exists>t. s = x @ t \<and> k t = Some r)"
proof -
  have "backtrack lo (length (takeWhile cls s)) s k = Some (x, r)"
    using assms by (simp add: greedy_def)
  from backtrack_Some[OF this]
  obtain j where j: "lo \<le> j" "j \<le> length (takeWhile cls s)" "x = take j s" "k (drop j s) = Some r"
    by blast
  have "length (takeWhile cls s) \<le> length s" by (rule length_takeWhile_le)
  then have "j \<le> length s" using j(2) by simp
  then have "length x = j" using j(3) by simp
  then have a: "lo \<le> length x" using j(1) by simp
  have b: "\<forall>c\<in>set x. cls c" using take_takeWhile_all[OF j(2)] j(3) by simp
  have "s = x @ drop j s" using j(3) by simp
  then have c: "\<exists>t. s = x @ t \<and> k t = Some r" using j(4) by blast
  show ?thesis using a b c by simp
qed

lemma lit_Some: "lit p s k = Some r \<Longrightarrow> \<exists>t. s = p @ t \<and> k t = Some r"
  unfolding lit_def using startsWith_iff[of s p]
  by (auto split: if_splits)

lemma pattern_view_Some:
  assumes "pattern_view s = Some fid"
  shows "fid \<noteq> [] \<and> (\<forall>c\<in>set fid. id_char c) \<and>
         (\<exists>post. s = ''https://drive.google.com/file/d/'' @ fid @ ''/view'' @ post)"
proof -
  obtain r where r: "lit ''https://drive.google.com/file/d/'' s
          (\<lambda>r. greedy id_char 1 r (\<lambda>t. lit ''/view'' t accept)) = Some (fid, r)"
    using assms unfolding pattern_view_def by auto
  from lit_Some[OF r] obtain t where t: "s = ''https://drive.google.com/file/d/'' @ t"
    "greedy id_char 1 t (\<lambda>t. lit ''/view'' t accept) = Some (fid, r)" by blast
  from greedy_Some[OF t(2)] obtain u where u: "1 \<le> length fid" "\<forall>c\<in>set fid. id_char c"
    "t = fid @ u" "lit ''/view'' u accept = Some r" by blast
  from lit_Some[OF u(4)] obtain post where "u = ''/view'' @ post" by blast
  then have "s = ''https://drive.google.com/file/d/'' @ fid @ ''/view'' @ post"
    using t(1) u(3) by simp
  moreover have "fid \<noteq> []" using u(1) by auto
  ultimately show ?thesis using u(2) by blast
qed

lemma pattern_open_Some:
  assumes "pattern_open s = Some fid"
  shows "fid \<noteq> [] \<and> (\<forall>c\<in>set fid. id_char c) \<and>
         (\<exists>post. s = ''https://drive.google.com/open?id='' @ fid @ post)"
proof -
  obtain r where r: "lit ''https://drive.google.com/open?id='' s
          (\<lambda>r. greedy id_char 1 r accept) = Some (fid, r)"
    using assms unfolding pattern_open_def by auto
  from lit_Some[OF r] obtain t where t: "s = ''https://drive.google.com/open?id='' @ t"
    "greedy id_char 1 t accept = Some (fid, r)" by blast
  from greedy_Some[OF t(2)] obtain u where u: "1 \<le> length fid" "\<forall>c\<in>set fid. id_char c"
    "t = fid @ u" by blast
  have "s = ''https://drive.google.com/open?id='' @ fid @ u"
    using t(1) u(3) by simp
  moreover have "fid \<noteq> []" using u(1) by auto
  ultimately show ?thesis using u(2) by blast
qed

lemma pattern_docs_Some:
  assumes "pattern_docs s = Some fid"
  shows "fid \<noteq> [] \<and> (\<forall>c\<in>set fid. id_char c) \<and>
         (\<exists>mid post. s = ''https://docs.google.com/'' @ mid @ ''/d/'' @ fid @ post)"
proof -
  obtain dots u0 where r: "lit ''https://docs.google.com/'' s
          (\<lambda>r. greedy re_dot 0 r (\<lambda>t. lit ''/d/'' t (\<lambda>u. greedy id_char 1 u accept)))
          = Some (dots, fid, u0)"
    using assms unfolding pattern_docs_def by auto
  from lit_Some[OF r] obtain t where t: "s = ''https://docs.google.com/'' @ t"
    "greedy re_dot 0 t (\<lambda>t. lit ''/d/'' t (\<lambda>u. greedy id_char 1 u accept)) = Some (dots, fid, u0)"
    by blast
  from greedy_Some[OF t(2)] obtain u where u: "t = dots @ u"
    "lit ''/d/'' u (\<lambda>u. greedy id_char 1 u accept) = Some (fid, u0)" by blast
  from lit_Some[OF u(2)] obtain w where w: "u = ''/d/'' @ w" "greedy id_char 1 w accept = Some (fid, u0)"
    by blast
  from greedy_Some[OF w(2)] obtain post where p: "1 \<le> length fid" "\<forall>c\<in>set fid. id_char c"
    "w = fid @ post" by blast
  have "s = ''https://docs.google.com/'' @ dots @ ''/d/'' @ fid @ post"
    using t(1) u(1) w(1) p(3) by simp
  moreover have "fid \<noteq> []" using p(1) by auto
  ultimately show ?thesis using p(2) by blast
qed

lemma first_match_Some:
  "first_match ps url = Some fid \<Longrightarrow>
     \<exists>i<length ps. search (ps ! i) url = Some fid \<and> (\<forall>j<i. search (ps ! j) url = None)"
proof (induction ps)
  case Nil
  then show ?case by simp
next
  case (Cons p ps)
  show ?case
  proof (cases "search p url")
    case None
    then have "first_match ps url = Some fid" using Cons.prems by simp
    then obtain i where i: "i < length ps" "search (ps ! i) url = Some fid"
      "\<forall>j<i. search (ps ! j) url = None" using Cons.IH by blast
    have "\<forall>j<Suc i. search ((p # ps) ! j) url = None"
    proof (intro allI impI)
      fix j assume "j < Suc i"
      then show "search ((p # ps) ! j) url = None"
        using None i(3) by (cases j) auto
    qed
    then have "Suc i < length (p # ps) \<and> search ((p # ps) ! Suc i) url = Some fid \<and>
       (\<forall>j<Suc i. search ((p # ps) ! j) url = None)" using i by simp
    then show ?thesis by blast
  next
    case (Some a)
    then have "0 < length (p # ps) \<and> search ((p # ps) ! 0) url = Some fid \<and>
       (\<forall>j<0. search ((p # ps) ! j) url = None)" using Cons.prems by simp
    then show ?thesis by blast
  qed
qed

lemma first_match_None:
  "first_match ps url = None \<Longrightarrow> \<forall>p\<in>set ps. search p url = None"
  by (induction ps) (auto split: option.splits)


lemma search_patterns_Nil: "p \<in> set GOOGLE_DRIVE_PATTERNS \<Longrightarrow> search p [] = None"
  by (auto simp: GOOGLE_DRIVE_PATTERNS_def pattern_view_def pattern_open_def pattern_docs_def
      lit_def startsWith_def)

lemma search_includes:
  assumes "search m url = Some r" and "\<And>t. m t = Some r \<Longrightarrow> \<exists>post. t = q @ post"
  shows "str_includes url q"
proof -
  obtain pre t where "url = pre @ t" "m t = Some r" using search_Some[OF assms(1)] by blast
  moreover then obtain post where "t = q @ post" using assms(2) by blast
  ultimately have "url = pre @ q @ post" by simp
  then show ?thesis unfolding str_includes_iff by blast
qed

lemma search_pattern_sound:
  assumes "i < length GOOGLE_DRIVE_PATTERNS" and "search (GOOGLE_DRIVE_PATTERNS ! i) url = Some fid"
  shows "fid \<noteq> [] \<and> (\<forall>c\<in>set fid. id_char c) \<and>
     (str_includes url (''https://drive.google.com/file/d/'' @ fid @ ''/view'') \<or>
      str_includes url (''https://drive.google.com/open?id='' @ fid) \<or>
      (str_includes url ''https://docs.google.com/'' \<and> str_includes url (''/d/'' @ fid)))"
proof -
  have "i = 0 \<or> i = 1 \<or> i = 2" using assms(1) by (auto simp: GOOGLE_DRIVE_PATTERNS_def)
  then consider (v) "search pattern_view url = Some fid" | (o) "search pattern_open url = Some fid"
    | (d) "search pattern_docs url = Some fid"
    using assms(2) by (auto simp: GOOGLE_DRIVE_PATTERNS_def)
  then show ?thesis
  proof cases
    case v
    obtain pre t where t: "url = pre @ t" "pattern_view t = Some fid" using search_Some[OF v] by blast
    from pattern_view_Some[OF t(2)] obtain post where
      p: "fid \<noteq> []" "\<forall>c\<in>set fid. id_char c" "t = ''https://drive.google.com/file/d/'' @ fid @ ''/view'' @ post"
      by blast
    have "url = pre @ (''https://drive.google.com/file/d/'' @ fid @ ''/view'') @ post"
      using t(1) p(3) by simp
    then have "str_includes url (''https://drive.google.com/file/d/'' @ fid @ ''/view'')"
      unfolding str_includes_iff by blast
    then show ?thesis using p by blast
  next
    case o
    obtain pre t where t: "url = pre @ t" "pattern_open t = Some fid" using search_Some[OF o] by blast
    from pattern_open_Some[OF t(2)] obtain post where
      p: "fid \<noteq> []" "\<forall>c\<in>set fid. id_char c" "t = ''https://drive.google.com/open?id='' @ fid @ post"
      by blast
    have "url = pre @ (''https://drive.google.com/open?id='' @ fid) @ post"
      using t(1) p(3) by simp
    then have "str_includes url (''https://drive.google.com/open?id='' @ fid)"
      unfolding str_includes_iff by blast
    then show ?thesis using p by blast
  next
    case d
    obtain pre t where t: "url = pre @ t" "pattern_docs t = Some fid" using search_Some[OF d] by blast
    from pattern_docs_Some[OF t(2)] obtain mid post where
      p: "fid \<noteq> []" "\<forall>c\<in>set fid. id_char c" "t = ''https://docs.google.com/'' @ mid @ ''/d/'' @ fid @ post"
      by blast
    have "url = pre @ ''https://docs.google.com/'' @ (mid @ ''/d/'' @ fid @ post)"
      using t(1) p(3) by simp
    then have a: "str_includes url ''https://docs.google.com/''"
      unfolding str_includes_iff by blast
    have "url = (pre @ ''https://docs.google.com/'' @ mid) @ (''/d/'' @ fid) @ post"
      using t(1) p(3) by simp
    then have "str_includes url (''/d/'' @ fid)"
      unfolding str_includes_iff by blast
    then show ?thesis using a p by blast
  qed
qed

text \<open>
  C9. Identifier extraction is total: on every value it returns either \<open>null\<close> or an
  identifier, and has no branch that throws. An identifier is returned only for a string, it is
  non-empty, made of characters of the class \<open>[a-zA-Z0-9_-]\<close>, and it is the first capturing
  group of the first pattern, in the order of the list, that matches somewhere in the string,
  so that the string contains the matched URL shape; \<open>null\<close> is returned for a value that is
  not a string and for a string in which no pattern matches.
\<close>

theorem extractDriveFileId_total:
  "(case extractDriveFileId v of
      None \<Rightarrow> (\<forall>url. v = JStr url \<longrightarrow> (\<forall>p\<in>set GOOGLE_DRIVE_PATTERNS. search p url = None))
    | Some fid \<Rightarrow>
        fid \<noteq> [] \<and> (\<forall>c\<in>set fid. id_char c) \<and>
        (\<exists>url. v = JStr url \<and>
           (\<exists>i<length GOOGLE_DRIVE_PATTERNS.
               search (GOOGLE_DRIVE_PATTERNS ! i) url = Some fid \<and>
               (\<forall>j<i. search (GOOGLE_DRIVE_PATTERNS ! j) url = None)) \<and>
           (str_includes url (''https://drive.google.com/file/d/'' @ fid @ ''/view'') \<or>
            str_includes url (''https://drive.google.com/open?id='' @ fid) \<or>
            (str_includes url ''https://docs.google.com/'' \<and> str_includes url (''/d/'' @ fid)))))"
proof (cases "extractDriveFileId v")
  case None
  have "\<forall>url. v = JStr url \<longrightarrow> (\<forall>p\<in>set GOOGLE_DRIVE_PATTERNS. search p url = None)"
  proof (intro allI impI)
    fix url assume u: "v = JStr url"
    show "\<forall>p\<in>set GOOGLE_DRIVE_PATTERNS. search p url = None"
    proof (cases "url = []")
      case True
      then show ?thesis using search_patterns_Nil by simp
    next
      case False
      then have "first_match GOOGLE_DRIVE_PATTERNS url = None" using None u by simp
      then show ?thesis by (rule first_match_None)
    qed
  qed
  then show ?thesis using None by simp
next
  case (Some fid)
  then obtain url where u: "v = JStr url" by (cases v) auto
  then have fm: "first_match GOOGLE_DRIVE_PATTERNS url = Some fid"
    using Some by (auto split: if_splits)
  from first_match_Some[OF fm] obtain i where i: "i < length GOOGLE_DRIVE_PATTERNS"
    "search (GOOGLE_DRIVE_PATTERNS ! i) url = Some fid"
    "\<forall>j<i. search (GOOGLE_DRIVE_PATTERNS ! j) url = None" by blast
  note s = search_pattern_sound[OF i(1) i(2)]
  have "\<exists>url. v = JStr url \<and>
           (\<exists>i<length GOOGLE_DRIVE_PATTERNS.
               search (GOOGLE_DRIVE_PATTERNS ! i) url = Some fid \<and>
               (\<forall>j<i. search (GOOGLE_DRIVE_PATTERNS ! j) url = None)) \<and>
           (str_includes url (''https://drive.google.com/file/d/'' @ fid @ ''/view'') \<or>
            str_includes url (''https://drive.google.com/open?id='' @ fid) \<or>
            (str_includes url ''https://docs.google.com/'' \<and> str_includes url (''/d/'' @ fid)))"
    using u i s by blast
  then show ?thesis using Some s by simp
qed

lemma extract_open_example:
  "extractDriveFileId (JStr ''https://drive.google.com/open?id=XyZ&a'') = Some ''XyZ''"
  by code_simp

lemma extract_nolink_example: "extractDriveFileId (JStr ''not a link'') = None"
  by code_simp

theorem extractDriveFileId_total_witness:
  "extractDriveFileId (JStr ''https://drive.google.com/open?id=XyZ&a'') = Some ''XyZ'' \<and>
   str_includes ''https://drive.google.com/open?id=XyZ&a'' ''https://drive.google.com/open?id=XyZ'' \<and>
   extractDriveFileId (JStr ''not a link'') = None \<and>
   search pattern_view ''not a link'' = None \<and>
   search pattern_open ''not a link'' = None \<and>
   search pattern_docs ''not a link'' = None \<and>
   extractDriveFileId (JNum 7) = None"
proof -
  have a: "str_includes ''https://drive.google.com/open?id=XyZ&a'' ''https://drive.google.com/open?id=XyZ''"
    by code_simp
  have b: "\<forall>p\<in>set GOOGLE_DRIVE_PATTERNS. search p ''not a link'' = None"
    using extractDriveFileId_total[of "JStr ''not a link''"] extract_nolink_example by simp
  then have c: "search pattern_view ''not a link'' = None \<and>
   search pattern_open ''not a link'' = None \<and>
   search pattern_docs ''not a link'' = None"
    by (simp add: GOOGLE_DRIVE_PATTERNS_def)
  show ?thesis using a c extract_open_example extract_nolink_example by simp
qed

section \<open>Cache file names\<close>

lemma safeName_My_Project: "safeName ''My Project'' = ''my-project''"
  unfolding safeName_def by code_simp

lemma safeName_my_project: "safeName ''my-project'' = ''my-project''"
  unfolding safeName_def by code_simp

text \<open>
  C10. The normalisation of the project name is not injective: the two different names
  \<open>My Project\<close> and \<open>my-project\<close> (they differ in case and punctuation only) give the same
  file name, for every field, every URL and every extension; so do their cache base names.
\<close>

theorem createSafeFilename_not_injective:
  "''My Project'' \<noteq> ''my-project'' \<and>
   createSafeFilename ''My Project'' fieldName originalUrl tempExtension =
   createSafeFilename ''my-project'' fieldName originalUrl tempExtension"
  unfolding createSafeFilename_def Let_def
  by (simp add: safeName_My_Project safeName_my_project)

section \<open>The content-type sniffer\<close>

lemma slice_0: "slice buf 0 n = take n buf"
  by (simp add: slice_def)

lemma take_of_prefix:
  assumes "take n buf = m" and "k \<le> n"
  shows "take k buf = take k m"
proof -
  have "take k (take n buf) = take k buf" using assms(2) by (simp add: min_def)
  then show ?thesis using assms(1) by simp
qed

lemma magic_signature_png:
  assumes "take 8 buf = PNG_MAGIC"
  shows "magic_signature buf = Some ''.png''"
proof -
  have t3: "take 3 buf = take 3 PNG_MAGIC" using take_of_prefix[OF assms, of 3] by simp
  have t4: "take 4 buf = take 4 PNG_MAGIC" using take_of_prefix[OF assms, of 4] by simp
  have t2: "take 2 buf = take 2 PNG_MAGIC" using take_of_prefix[OF assms, of 2] by simp
  have h2: "hex_of (take 2 PNG_MAGIC) = ''8950''" by code_simp
  have h4: "hex_of (take 4 PNG_MAGIC) = ''89504e47''" by code_simp
  have h8: "hex_of PNG_MAGIC = ''89504e470d0a1a0a''" by code_simp
  have a3: "take 3 PNG_MAGIC \<noteq> ''AVI''" by (simp add: PNG_MAGIC_def)
  have a4: "take 4 PNG_MAGIC \<noteq> ''RIFF''" by (simp add: PNG_MAGIC_def)
  show ?thesis
    unfolding magic_signature_def slice_0
    by (simp add: t2 t3 t4 assms h2 h4 h8 a3 a4)
qed

lemma hex_of_append: "hex_of (a @ b) = hex_of a @ hex_of b"
  by (simp add: hex_of_def)

lemma magic_signature_jpeg:
  assumes "take 2 buf = JPEG_MAGIC"
  shows "magic_signature buf = Some ''.jpg''"
proof -
  have h2: "hex_of JPEG_MAGIC = ''ffd8''" by code_simp
  have a3: "take 3 buf \<noteq> ''AVI''"
  proof
    assume "take 3 buf = ''AVI''"
    from take_of_prefix[OF this, of 2] show False using assms by (simp add: JPEG_MAGIC_def)
  qed
  have a4: "take 4 buf \<noteq> ''RIFF''"
  proof
    assume "take 4 buf = ''RIFF''"
    from take_of_prefix[OF this, of 2] show False using assms by (simp add: JPEG_MAGIC_def)
  qed
  have "take 4 buf = take 2 buf @ take 2 (drop 2 buf)"
    using take_add[of 2 2 buf] by simp
  then have "hex_of (take 4 buf) = ''ffd8'' @ hex_of (take 2 (drop 2 buf))"
    using assms h2 by (simp add: hex_of_append)
  then have h4: "hex_of (take 4 buf) \<noteq> ''1a45dfa3''" by simp
  show ?thesis
    unfolding magic_signature_def slice_0
    by (simp add: assms h2 a3 a4 h4)
qed

text \<open>
  C8, as amended. The sniffer looks for the \<open>ftyp\<close> marker of a video before every other
  signature. A buffer that begins with the eight bytes of the PNG signature gives \<open>.png\<close>,
  and a buffer that begins with the bytes FF D8 gives \<open>.jpg\<close>, when no \<open>ftyp\<close> marker is found
  at an index of at most 12. A buffer of fewer than 5000 bytes gives the classification error
  when no signature is recognised in it and the first 100 bytes, read as ASCII, contain
  \<open><html>\<close> or \<open><!DOCTYPE\<close>.
\<close>

theorem detectFileType_signatures:
  "(take 8 b1 = PNG_MAGIC \<and> ftyp_brand b1 = None \<longrightarrow> detectFileType b1 = Inr ''.png'') \<and>
   (take 2 b2 = JPEG_MAGIC \<and> ftyp_brand b2 = None \<longrightarrow> detectFileType b2 = Inr ''.jpg'') \<and>
   (length b3 < 5000 \<and> ftyp_brand b3 = None \<and> magic_signature b3 = None \<and>
    (str_includes (ascii_of (take 100 b3)) ''<html>'' \<or>
     str_includes (ascii_of (take 100 b3)) ''<!DOCTYPE'')
      \<longrightarrow> detectFileType b3 = Inl HtmlErrorPage)"
proof (intro conjI impI)
  assume "take 8 b1 = PNG_MAGIC \<and> ftyp_brand b1 = None"
  then show "detectFileType b1 = Inr ''.png''"
    by (simp add: detectFileType_def magic_signature_png)
next
  assume "take 2 b2 = JPEG_MAGIC \<and> ftyp_brand b2 = None"
  then show "detectFileType b2 = Inr ''.jpg''"
    by (simp add: detectFileType_def magic_signature_jpeg)
next
  assume a: "length b3 < 5000 \<and> ftyp_brand b3 = None \<and> magic_signature b3 = None \<and>
    (str_includes (ascii_of (take 100 b3)) ''<html>'' \<or>
     str_includes (ascii_of (take 100 b3)) ''<!DOCTYPE'')"
  have "take (min 100 (length b3)) b3 = take 100 b3" by (simp add: min_def)
  then show "detectFileType b3 = Inl HtmlErrorPage"
    using a by (simp add: detectFileType_def Let_def slice_0)
qed

lemma detect_png_example: "detectFileType (PNG_MAGIC @ ''abcd'') = Inr ''.png''"
  by code_simp

theorem detectFileType_signatures_witness:
  "take 8 (PNG_MAGIC @ ''abcd'') = PNG_MAGIC \<and> ftyp_brand (PNG_MAGIC @ ''abcd'') = None \<and>
   detectFileType (PNG_MAGIC @ ''abcd'') = Inr ''.png'' \<and>
   take 2 (JPEG_MAGIC @ ''JFIF'') = JPEG_MAGIC \<and> ftyp_brand (JPEG_MAGIC @ ''JFIF'') = None \<and>
   detectFileType (JPEG_MAGIC @ ''JFIF'') = Inr ''.jpg'' \<and>
   length ''<!DOCTYPE html>'' < 5000 \<and> ftyp_brand ''<!DOCTYPE html>'' = None \<and>
   magic_signature ''<!DOCTYPE html>'' = None \<and>
   str_includes (ascii_of (take 100 ''<!DOCTYPE html>'')) ''<!DOCTYPE'' \<and>
   detectFileType ''<!DOCTYPE html>'' = Inl HtmlErrorPage"
proof -
  have p1: "take 8 (PNG_MAGIC @ ''abcd'') = PNG_MAGIC" by (simp add: PNG_MAGIC_def)
  have p2: "ftyp_brand (PNG_MAGIC @ ''abcd'') = None" by code_simp
  have j1: "take 2 (JPEG_MAGIC @ ''JFIF'') = JPEG_MAGIC" by (simp add: JPEG_MAGIC_def)
  have j2: "ftyp_brand (JPEG_MAGIC @ ''JFIF'') = None" by code_simp
  have h1: "length ''<!DOCTYPE html>'' < 5000" by simp
  have h2: "ftyp_brand ''<!DOCTYPE html>'' = None" by code_simp
  have h3: "magic_signature ''<!DOCTYPE html>'' = None" by code_simp
  have h4: "str_includes (ascii_of (take 100 ''<!DOCTYPE html>'')) ''<!DOCTYPE''"
    by (simp add: ascii_of_def startsWith_def)
  note t = detectFileType_signatures[of "PNG_MAGIC @ ''abcd''" "JPEG_MAGIC @ ''JFIF''" "''<!DOCTYPE html>''"]
  have r1: "detectFileType (PNG_MAGIC @ ''abcd'') = Inr ''.png''" using t p1 p2 by blast
  have r2: "detectFileType (JPEG_MAGIC @ ''JFIF'') = Inr ''.jpg''" using t j1 j2 by blast
  have r3: "detectFileType ''<!DOCTYPE html>'' = Inl HtmlErrorPage" using t h1 h2 h3 h4 by blast
  show ?thesis by (intro conjI) (fact p1 p2 j1 j2 h1 h2 h3 h4 r1 r2 r3)+
qed

text \<open>
  The claim as first stated fails. A buffer that begins with the PNG signature and goes on
  with \<open>ftypisom\<close> is taken for a video; so is a buffer that begins with FF D8 and goes on
  with \<open>ftypqt\<close>; and a buffer of 119 bytes holding \<open><!DOCTYPE\<close> after the first 100 bytes,
  or one holding the tag \<open><html lang=en>\<close>, is given the default \<open>.jpg\<close>.
\<close>

lemma detect_late_doctype: "detectFileType late_doctype = Inr ''.jpg''"
proof -
  have f: "ftyp_brand late_doctype = None" by code_simp
  have m: "magic_signature late_doctype = None" by code_simp
  have l: "length late_doctype = 119" by (simp add: late_doctype_def)
  have h: "\<not> str_includes (ascii_of (slice late_doctype 0 100)) ''<html>''"
    by (simp add: late_doctype_def slice_def ascii_of_def startsWith_def)
  have d: "\<not> str_includes (ascii_of (slice late_doctype 0 100)) ''<!DOCTYPE''"
    by (simp add: late_doctype_def slice_def ascii_of_def startsWith_def)
  show ?thesis
    unfolding detectFileType_def Let_def by (simp add: f m l h d)
qed

lemma detect_html_tag: "detectFileType ''<html lang=en>'' = Inr ''.jpg''"
proof -
  have f: "ftyp_brand ''<html lang=en>'' = None" by code_simp
  have m: "magic_signature ''<html lang=en>'' = None" by code_simp
  have l: "length ''<html lang=en>'' = 14" by simp
  have h: "\<not> str_includes (ascii_of (slice ''<html lang=en>'' 0 14)) ''<html>''"
    by (simp add: slice_def ascii_of_def startsWith_def)
  have d: "\<not> str_includes (ascii_of (slice ''<html lang=en>'' 0 14)) ''<!DOCTYPE''"
    by (simp add: slice_def ascii_of_def startsWith_def)
  show ?thesis
    unfolding detectFileType_def Let_def l by (simp add: f m h d)
qed

theorem detectFileType_counterexample:
  "take 8 (PNG_MAGIC @ ''ftypisom'') = PNG_MAGIC \<and>
   detectFileType (PNG_MAGIC @ ''ftypisom'') = Inr ''.mp4'' \<and>
   take 2 (JPEG_MAGIC @ ''ftypqt  '') = JPEG_MAGIC \<and>
   detectFileType (JPEG_MAGIC @ ''ftypqt  '') = Inr ''.mov'' \<and>
   length late_doctype < 5000 \<and>
   str_includes late_doctype ''<!DOCTYPE'' \<and>
   detectFileType late_doctype = Inr ''.jpg'' \<and>
   detectFileType ''<html lang=en>'' = Inr ''.jpg''"
proof -
  have 1: "take 8 (PNG_MAGIC @ ''ftypisom'') = PNG_MAGIC" by (simp add: PNG_MAGIC_def)
  have 2: "detectFileType (PNG_MAGIC @ ''ftypisom'') = Inr ''.mp4''" by code_simp
  have 3: "take 2 (JPEG_MAGIC @ ''ftypqt  '') = JPEG_MAGIC" by (simp add: JPEG_MAGIC_def)
  have 4: "detectFileType (JPEG_MAGIC @ ''ftypqt  '') = Inr ''.mov''" by code_simp
  have 5: "length late_doctype < 5000" by (simp add: late_doctype_def)
  have 6: "str_includes late_doctype ''<!DOCTYPE''" by code_simp
  show ?thesis by (intro conjI) (fact 1 2 3 4 5 6 detect_late_doctype detect_html_tag)+
qed

section \<open>The fetch engine\<close>

declare retry_loop.simps [simp del]

lemma downloadFile_Suc:
  "downloadFile (Suc fuel) srv w url filepath retries fileId =
     retry_loop (\<lambda>w'. attempt (downloadFile fuel srv) srv w' url filepath retries
         (if fileId = None \<or> fileId = Some [] then extractDriveFileId (JStr url) else fileId))
       filepath retries (Suc 0) w"
  by (simp add: Let_def)

lemma downloadFile_0: "downloadFile 0 srv w url filepath retries fileId = None"
  by simp

declare downloadFile.simps [simp del]

declare extractDriveFileId.simps [simp del]

lemma delete_absent: "map_of (AList.delete k d) k = None"
  by (simp add: delete_conv)

lemma receive_None_iff:
  "t \<le> MAX_FILE_SIZE \<Longrightarrow>
   receive t wr cs = None \<longleftrightarrow> MAX_FILE_SIZE < t + sum_list (map length cs)"
proof (induction cs arbitrary: t wr)
  case Nil
  then show ?case by simp
next
  case (Cons c cs)
  show ?case
  proof (cases "t + length c > MAX_FILE_SIZE")
    case True
    then show ?thesis by simp
  next
    case False
    then have "receive t wr (c # cs) = receive (t + length c) (wr @ c) cs" by simp
    moreover have "t + length c \<le> MAX_FILE_SIZE" using False by simp
    ultimately show ?thesis using Cons.IH[of "t + length c" "wr @ c"] by (simp add: add.assoc)
  qed
qed

lemma receive_Some: "receive t wr cs = Some b \<Longrightarrow> b = wr @ concat cs"
proof (induction cs arbitrary: t wr)
  case Nil
  then show ?case by simp
next
  case (Cons c cs)
  then have "receive (t + length c) (wr @ c) cs = Some b" by (auto split: if_splits)
  from Cons.IH[OF this] show ?case by simp
qed

text \<open>The loop over the attempts, when every attempt is rejected.\<close>

lemma retry_loop_all_rejected:
  assumes "\<And>w. promise w = Some (g w, Rejected e)"
  shows "n \<le> retries \<Longrightarrow>
         retry_loop promise filepath retries n w = Some ((g ^^ (Suc retries - n)) w, Rejected e)"
proof (induction "retries - n" arbitrary: n w)
  case 0
  then have "n = retries" by simp
  then show ?case
    by (subst retry_loop.simps) (simp add: assms)
next
  case (Suc k)
  then have lt: "n < retries" by simp
  have k: "k = retries - Suc n" using Suc.hyps(2) by simp
  have s: "Suc retries - n = Suc (Suc retries - Suc n)" using lt by simp
  have "retry_loop promise filepath retries n w = retry_loop promise filepath retries (Suc n) (g w)"
    using lt by (subst retry_loop.simps) (simp add: assms)
  also have "\<dots> = Some ((g ^^ (Suc retries - Suc n)) (g w), Rejected e)"
    using Suc.hyps(1)[OF k] lt by simp
  finally show ?case unfolding s by (simp add: funpow_swap1)
qed

text \<open>An attempt on a body above the limit: the file is removed and the attempt rejected.\<close>

lemma attempt_too_large:
  assumes "srv (requests w) url = Response r" and "statusCode r = 200"
    and "MAX_FILE_SIZE < sum_list (map length (chunks r))"
  shows "attempt dl srv w url filepath retries fileId =
         Some (w\<lparr>files := unlink (write_file (files w) filepath []) filepath,
                  requests := requests w @ [url]\<rparr>, Rejected FileTooLarge)"
proof -
  have "receive 0 [] (chunks r) = None" using assms(3) by (simp add: receive_None_iff)
  then show ?thesis
    unfolding attempt_def Let_def using assms(1,2) by (simp add: is_redirect_def)
qed

lemma too_large_steps_requests:
  "requests ((too_large_step url filepath ^^ k) w) = requests w @ replicate k url"
proof (induction k)
  case 0
  then show ?case by simp
next
  case (Suc k)
  then show ?case by (simp add: too_large_step_def replicate_append_same)
qed

lemma too_large_steps_file:
  "0 < k \<Longrightarrow> map_of (files ((too_large_step url filepath ^^ k) w)) filepath = None"
  by (cases k) (simp_all add: too_large_step_def unlink_def delete_absent)

lemma downloadFile_too_large:
  assumes "\<And>log. \<exists>r. srv log url = Response r \<and> statusCode r = 200 \<and>
             MAX_FILE_SIZE < sum_list (map length (chunks r))"
    and "1 \<le> retries"
  shows "downloadFile (Suc fuel) srv w url filepath retries fileId =
         Some ((too_large_step url filepath ^^ retries) w, Rejected FileTooLarge)"
proof -
  have a: "\<And>w' fid. attempt (downloadFile fuel srv) srv w' url filepath retries fid =
      Some (too_large_step url filepath w', Rejected FileTooLarge)"
  proof -
    fix w' :: world and fid :: "string option"
    obtain r where "srv (requests w') url = Response r" "statusCode r = 200"
      "MAX_FILE_SIZE < sum_list (map length (chunks r))" using assms(1) by blast
    from attempt_too_large[of srv w' url r "downloadFile fuel srv" filepath retries fid, OF this] show "attempt (downloadFile fuel srv) srv w' url filepath retries fid =
      Some (too_large_step url filepath w', Rejected FileTooLarge)"
      by (simp add: too_large_step_def)
  qed
  show ?thesis
    using retry_loop_all_rejected[of _ "too_large_step url filepath" FileTooLarge 1 retries filepath w,
        OF a assms(2)]
    by (simp add: downloadFile_Suc)
qed


text \<open>An attempt that ends in the attempt itself, with a media file.\<close>

lemma written_file:
  "map_of (write_file (write_file d filepath []) filepath body) filepath = Some body"
  by (simp add: write_file_def update_conv)

lemma finalize_requests: "requests (fst (finalize w filepath body name)) = requests w"
  unfolding finalize_def Let_def
  by (auto split: option.splits sum.splits)

lemma finalize_resolved:
  "name \<noteq> None \<or> detectFileType body = Inr ext \<Longrightarrow>
   \<exists>w' p. finalize w filepath body name = (w', Resolved p)"
  unfolding finalize_def Let_def
  by (auto split: option.splits sum.splits)

lemma attempt_media:
  assumes "srv (requests w) url = Response r" and "statusCode r = 200" and "complete r"
    and "receive 0 [] (chunks r) = Some body"
    and "\<not> looks_like_html (take (min 1000 (length body)) body)"
    and "originalFilename_of (contentDisposition r) \<noteq> None \<or> detectFileType body = Inr ext"
  shows "\<exists>w' p. attempt dl srv w url filepath retries fileId = Some (w', Resolved p) \<and>
           requests w' = requests w @ [url]"
proof -
  obtain d l where w: "w = \<lparr>files = d, requests = l\<rparr>" by (cases w) auto
  define w2 where "w2 = \<lparr>files = write_file (write_file d filepath []) filepath body,
                          requests = l @ [url]\<rparr>"
  have a: "attempt dl srv w url filepath retries fileId =
        Some (finalize w2 filepath body (originalFilename_of (contentDisposition r)))"
    unfolding attempt_def on_finish_def Let_def w2_def
    using assms(1-5) by (simp add: is_redirect_def written_file w)
  obtain w' p where f: "finalize w2 filepath body (originalFilename_of (contentDisposition r)) = (w', Resolved p)"
    using finalize_resolved[OF assms(6)] by blast
  have "requests w' = requests w2"
    using finalize_requests[of w2 filepath body "originalFilename_of (contentDisposition r)"] f by simp
  then have "requests w' = requests w @ [url]" by (simp add: w2_def w)
  then show ?thesis using a f by simp
qed

lemma retry_loop_None:
  "promise w = None \<Longrightarrow> 1 \<le> retries \<Longrightarrow> retry_loop promise filepath retries (Suc 0) w = None"
  by (subst retry_loop.simps) simp

lemma retry_loop_Resolved:
  "promise w = Some (w', Resolved p) \<Longrightarrow> 1 \<le> retries \<Longrightarrow>
   retry_loop promise filepath retries (Suc 0) w =
     Some (w', Resolved (if p = [] then filepath else p))"
  by (subst retry_loop.simps) simp

lemma attempt_redirect:
  assumes "srv (requests w) url = Response r" and "is_redirect (statusCode r)"
    and "location r = Some target"
  shows "attempt dl srv w url filepath retries fileId =
         dl (w\<lparr>files := write_file (files w) filepath [], requests := requests w @ [url]\<rparr>)
            target filepath retries fileId"
  unfolding attempt_def Let_def using assms by simp

lemma redirect_to_facts:
  "is_redirect (statusCode \<lparr>statusCode = 302, location = Some u, contentDisposition = None,
                              chunks = [], complete = True\<rparr>)"
  by (simp add: is_redirect_def)

lemma always_redirect_diverges:
  "1 \<le> retries \<Longrightarrow> downloadFile fuel always_redirect w url filepath retries fileId = None"
proof (induction fuel arbitrary: w fileId)
  case 0
  then show ?case by (simp add: downloadFile_0)
next
  case (Suc fuel)
  have "\<And>(w' :: world) fid. attempt (downloadFile fuel always_redirect) always_redirect w' url
            filepath retries fid = None"
  proof -
    fix w' :: world and fid :: "string option"
    have "attempt (downloadFile fuel always_redirect) always_redirect w' url filepath retries fid =
          downloadFile fuel always_redirect
            (w'\<lparr>files := write_file (files w') filepath [], requests := requests w' @ [url]\<rparr>)
            url filepath retries fid"
      by (rule attempt_redirect[where r="\<lparr>statusCode = 302, location = Some url,
            contentDisposition = None, chunks = [], complete = True\<rparr>"])
         (simp_all add: always_redirect_def redirect_to_def is_redirect_def)
    then show "attempt (downloadFile fuel always_redirect) always_redirect w' url
            filepath retries fid = None"
      using Suc.IH[OF Suc.prems] by simp
  qed
  then show ?case using Suc.prems by (simp add: downloadFile_Suc retry_loop_None)
qed

lemma png_data_facts:
  "\<not> MAX_FILE_SIZE < length png_data"
  "receive 0 [] [png_data] = Some png_data"
  "\<not> looks_like_html (take (min 1000 (length png_data)) png_data)"
  "detectFileType png_data = Inr ''.png''"
proof -
  show "\<not> MAX_FILE_SIZE < length png_data"
    by (simp add: MAX_FILE_SIZE_def PNG_MAGIC_def png_data_def)
  show "receive 0 [] [png_data] = Some png_data"
    by (simp add: MAX_FILE_SIZE_def PNG_MAGIC_def png_data_def)
  have "take (min 1000 (length png_data)) png_data = png_data"
    by (simp add: PNG_MAGIC_def png_data_def)
  moreover have "\<not> looks_like_html png_data" by code_simp
  ultimately show "\<not> looks_like_html (take (min 1000 (length png_data)) png_data)"
    by simp
  show "detectFileType png_data = Inr ''.png''" by code_simp
qed

lemma redirect_chain_resolves:
  assumes "1 \<le> retries"
  shows "length (requests w) \<le> k \<Longrightarrow> k - length (requests w) < fuel \<Longrightarrow>
     \<exists>w' p. downloadFile fuel (redirect_chain k) w url filepath retries fileId = Some (w', Resolved p) \<and>
        requests w' = requests w @ replicate (Suc (k - length (requests w))) url"
proof (induction fuel arbitrary: w fileId)
  case 0
  then show ?case by (simp add: downloadFile_0)
next
  case (Suc fuel)
  define fid where "fid = (if fileId = None \<or> fileId = Some [] then extractDriveFileId (JStr url)
                     else fileId)"
  have d: "downloadFile (Suc fuel) (redirect_chain k) w url filepath retries fileId =
        retry_loop (\<lambda>w'. attempt (downloadFile fuel (redirect_chain k)) (redirect_chain k) w' url
           filepath retries fid) filepath retries 1 w"
    by (simp add: downloadFile_Suc fid_def)
  show ?case
  proof (cases "length (requests w) < k")
    case True
    define w1 where "w1 = w\<lparr>files := write_file (files w) filepath [], requests := requests w @ [url]\<rparr>"
    have a: "attempt (downloadFile fuel (redirect_chain k)) (redirect_chain k) w url filepath retries fid =
          downloadFile fuel (redirect_chain k) w1 url filepath retries fid"
      unfolding w1_def
      by (rule attempt_redirect[where r="\<lparr>statusCode = 302, location = Some url,
            contentDisposition = None, chunks = [], complete = True\<rparr>"])
         (simp_all add: redirect_chain_def redirect_to_def is_redirect_def True)
    have l: "length (requests w1) \<le> k" "k - length (requests w1) < fuel"
      using True Suc.prems by (simp_all add: w1_def)
    from Suc.IH[OF l, of fid] obtain w' p where
      r: "downloadFile fuel (redirect_chain k) w1 url filepath retries fid = Some (w', Resolved p)"
         "requests w' = requests w1 @ replicate (Suc (k - length (requests w1))) url" by blast
    have "k - length (requests w) = Suc (k - length (requests w1))"
      using True by (simp add: w1_def)
    then have q: "requests w' = requests w @ replicate (Suc (k - length (requests w))) url"
      using r(2) by (simp add: w1_def)
    have "downloadFile (Suc fuel) (redirect_chain k) w url filepath retries fileId =
        Some (w', Resolved (if p = [] then filepath else p))"
      unfolding d using retry_loop_Resolved[OF _ assms] a r(1) by simp
    then show ?thesis using q by blast
  next
    case False
    then have e: "length (requests w) = k" using Suc.prems by simp
    have s: "redirect_chain k (requests w) url = Response \<lparr>statusCode = 200, location = None,
         contentDisposition = None, chunks = [png_data], complete = True\<rparr>"
      using False by (simp add: redirect_chain_def ok_def)
    have "\<exists>w' p. attempt (downloadFile fuel (redirect_chain k)) (redirect_chain k) w url
         filepath retries fid = Some (w', Resolved p) \<and> requests w' = requests w @ [url]"
      by (rule attempt_media[where r="\<lparr>statusCode = 200, location = None,
            contentDisposition = None, chunks = [png_data], complete = True\<rparr>"
            and body="png_data" and ext="''.png''"])
         (simp_all add: s png_data_facts)
    then obtain w' p where r: "attempt (downloadFile fuel (redirect_chain k)) (redirect_chain k) w url
         filepath retries fid = Some (w', Resolved p)" "requests w' = requests w @ [url]"
      by blast
    have "downloadFile (Suc fuel) (redirect_chain k) w url filepath retries fileId =
        Some (w', Resolved (if p = [] then filepath else p))"
      unfolding d using retry_loop_Resolved[OF _ assms] r(1) by simp
    then show ?thesis using r(2) e by auto
  qed
qed

text \<open>
  C3, as amended. \<open>downloadFile\<close> follows redirects with no bound on the number of hops. On a
  server that redirects every request it returns for no number of nested calls; and for
  every \<open>k\<close>, on a server that redirects the first \<open>k\<close> requests and then serves an image, it
  follows all \<open>k\<close> redirects inside the first attempt and resolves after \<open>k + 1\<close> requests.
\<close>

theorem downloadFile_redirects_unbounded:
  "(1 \<le> retries \<longrightarrow>
      downloadFile fuel always_redirect w url filepath retries fileId = None) \<and>
   (1 \<le> retries \<and> requests w = [] \<and> k < fuel \<longrightarrow>
      (\<exists>w' p. downloadFile fuel (redirect_chain k) w url filepath retries fileId =
                 Some (w', Resolved p) \<and>
              requests w' = replicate (Suc k) url))"
proof (intro conjI impI)
  assume "1 \<le> retries"
  then show "downloadFile fuel always_redirect w url filepath retries fileId = None"
    by (rule always_redirect_diverges)
next
  assume a: "1 \<le> retries \<and> requests w = [] \<and> k < fuel"
  then have "length (requests w) \<le> k" "k - length (requests w) < fuel" by simp_all
  from redirect_chain_resolves[OF _ this, of retries url filepath fileId] a
  show "\<exists>w' p. downloadFile fuel (redirect_chain k) w url filepath retries fileId =
                 Some (w', Resolved p) \<and> requests w' = replicate (Suc k) url"
    by simp
qed

theorem downloadFile_redirects_unbounded_witness:
  "downloadFile 3 always_redirect w0 sample_url sample_tmp 2 None = None \<and>
   (\<exists>w' p. downloadFile 3 (redirect_chain 2) w0 sample_url sample_tmp 2 None =
              Some (w', Resolved p) \<and>
            requests w' = replicate (Suc 2) sample_url)"
proof -
  have r: "requests w0 = []" by (simp add: w0_def)
  show ?thesis
    using downloadFile_redirects_unbounded[of 2 3 w0 sample_url sample_tmp None 2] r
    by simp
qed

text \<open>
  The claim as first stated fails: there is no cap of about ten hops after which the fetch
  fails. Twelve redirects are followed and the fetch succeeds at the thirteenth request; and
  one hundred nested calls do not suffice on the server that always redirects.
\<close>

theorem downloadFile_hop_cap_counterexample:
  "(case downloadFile 13 (redirect_chain 12) w0 sample_url sample_tmp 2 None of
      None \<Rightarrow> False
    | Some (w', r) \<Rightarrow> is_resolved r \<and> length (requests w') = 13) \<and>
   downloadFile 100 always_redirect w0 sample_url sample_tmp 2 None = None"
proof -
  have "length (requests w0) \<le> 12" "12 - length (requests w0) < 13" by (simp_all add: w0_def)
  from redirect_chain_resolves[OF _ this, of 2 sample_url sample_tmp None]
  obtain w' p where
    "downloadFile 13 (redirect_chain 12) w0 sample_url sample_tmp 2 None = Some (w', Resolved p)"
    "requests w' = requests w0 @ replicate (Suc (12 - length (requests w0))) sample_url"
    by auto
  then have a: "case downloadFile 13 (redirect_chain 12) w0 sample_url sample_tmp 2 None of
      None \<Rightarrow> False
    | Some (w', r) \<Rightarrow> is_resolved r \<and> length (requests w') = 13"
    by (simp add: is_resolved_def w0_def)
  have b: "downloadFile 100 always_redirect w0 sample_url sample_tmp 2 None = None"
    by (rule always_redirect_diverges) simp
  show ?thesis using a b by simp
qed

text \<open>
  C4, as amended. An attempt whose streamed bytes exceed \<open>MAX_FILE_SIZE\<close> is rejected with
  the size error, and the partial file is removed. The error is not final: the loop over
  the attempts treats it as any other rejection. When the server answers every request for
  the URL with such a body, \<open>downloadFile\<close> requests the URL once per allowed attempt, then
  throws the size error, and no file is left at the path.
\<close>

theorem size_exceeded_is_retried:
  "(srv (requests w) url = Response r \<and> statusCode r = 200 \<and>
    MAX_FILE_SIZE < sum_list (map length (chunks r)) \<longrightarrow>
      (\<exists>w'. attempt dl srv w url filepath retries fileId = Some (w', Rejected FileTooLarge) \<and>
            requests w' = requests w @ [url] \<and> \<not> existsSync (files w') filepath)) \<and>
   ((\<forall>log. \<exists>r. srv log url = Response r \<and> statusCode r = 200 \<and>
              MAX_FILE_SIZE < sum_list (map length (chunks r))) \<and> 1 \<le> retries \<longrightarrow>
      (\<exists>w'. downloadFile (Suc fuel) srv w url filepath retries fileId =
              Some (w', Rejected FileTooLarge) \<and>
            requests w' = requests w @ replicate retries url \<and>
            \<not> existsSync (files w') filepath))"
proof (intro conjI impI)
  assume a: "srv (requests w) url = Response r \<and> statusCode r = 200 \<and>
    MAX_FILE_SIZE < sum_list (map length (chunks r))"
  then have "attempt dl srv w url filepath retries fileId =
         Some (w\<lparr>files := unlink (write_file (files w) filepath []) filepath,
                  requests := requests w @ [url]\<rparr>, Rejected FileTooLarge)"
    using attempt_too_large[of srv w url r dl filepath retries fileId] by simp
  then show "\<exists>w'. attempt dl srv w url filepath retries fileId = Some (w', Rejected FileTooLarge) \<and>
            requests w' = requests w @ [url] \<and> \<not> existsSync (files w') filepath"
    by (simp add: existsSync_def unlink_def delete_absent)
next
  assume a: "(\<forall>log. \<exists>r. srv log url = Response r \<and> statusCode r = 200 \<and>
              MAX_FILE_SIZE < sum_list (map length (chunks r))) \<and> 1 \<le> retries"
  then have "downloadFile (Suc fuel) srv w url filepath retries fileId =
         Some ((too_large_step url filepath ^^ retries) w, Rejected FileTooLarge)"
    using downloadFile_too_large[of srv url retries fuel w filepath fileId] by simp
  moreover have "0 < retries" using a by simp
  ultimately show "\<exists>w'. downloadFile (Suc fuel) srv w url filepath retries fileId =
              Some (w', Rejected FileTooLarge) \<and>
            requests w' = requests w @ replicate retries url \<and>
            \<not> existsSync (files w') filepath"
    by (simp add: too_large_steps_requests too_large_steps_file existsSync_def)
qed

lemma oversized_facts:
  "oversized = Response \<lparr>statusCode = 200, location = None, contentDisposition = None,
       chunks = [replicate (MAX_FILE_SIZE + 1) (CHR ''x'')], complete = True\<rparr>"
  "MAX_FILE_SIZE < sum_list (map length [replicate (MAX_FILE_SIZE + 1) (CHR ''x'')])"
  by (simp_all add: oversized_def ok_def)

theorem size_exceeded_is_retried_witness:
  "(\<exists>w'. attempt (downloadFile 0 (\<lambda>log u. oversized)) (\<lambda>log u. oversized) w0 sample_url
            sample_tmp 2 None = Some (w', Rejected FileTooLarge) \<and>
          requests w' = requests w0 @ [sample_url] \<and> \<not> existsSync (files w') sample_tmp) \<and>
   (\<exists>w'. downloadFile (Suc 0) (\<lambda>log u. oversized) w0 sample_url sample_tmp 2 None =
            Some (w', Rejected FileTooLarge) \<and>
          requests w' = requests w0 @ replicate 2 sample_url \<and>
          \<not> existsSync (files w') sample_tmp)"
proof -
  let ?r = "\<lparr>statusCode = 200, location = None, contentDisposition = None,
         chunks = [replicate (MAX_FILE_SIZE + 1) (CHR ''x'')], complete = True\<rparr>"
  note t = size_exceeded_is_retried[of "\<lambda>log u. oversized" w0 sample_url ?r
      "downloadFile 0 (\<lambda>log u. oversized)" sample_tmp 2 None 0]
  have h1: "oversized = Response ?r \<and> statusCode ?r = 200 \<and>
      MAX_FILE_SIZE < sum_list (map length (chunks ?r))"
    by (simp add: oversized_facts)
  have h2: "(\<forall>log::string list. \<exists>r. oversized = Response r \<and> statusCode r = 200 \<and>
      MAX_FILE_SIZE < sum_list (map length (chunks r))) \<and> 1 \<le> (2::nat)"
    using h1 by auto
  show ?thesis
    by (rule conjI[OF mp[OF conjunct1[OF t] h1] mp[OF conjunct2[OF t] h2]])
qed

text \<open>
  The claim as first stated fails: the size error is retried. With the default of two
  attempts, the oversized body is requested twice before \<open>downloadFile\<close> throws.
\<close>

theorem size_exceeded_counterexample:
  "downloadFile 1 (\<lambda>log u. oversized) w0 sample_url sample_tmp 2 None =
     Some (\<lparr>files = [], requests = [sample_url, sample_url]\<rparr>, Rejected FileTooLarge)"
proof -
  have "downloadFile (Suc 0) (\<lambda>log u. oversized) w0 sample_url sample_tmp 2 None =
         Some ((too_large_step sample_url sample_tmp ^^ 2) w0, Rejected FileTooLarge)"
    by (rule downloadFile_too_large) (simp_all add: oversized_facts)
  moreover have "(too_large_step sample_url sample_tmp ^^ 2) w0 =
      \<lparr>files = [], requests = [sample_url, sample_url]\<rparr>"
    by (simp add: numeral_2_eq_2 too_large_step_def w0_def unlink_def write_file_def)
  ultimately show ?thesis by simp
qed

subsection \<open>The virus-scan page\<close>

















section \<open>The orchestrator\<close>








lemma sample_facts:
  "extractDriveFileId (JStr sample_link) = Some ''FILEID123''"
  "createSafeFilename ''Sample'' ''thumbnailImage'' (JStr sample_link) ''.tmp'' = sample_tmp"
  "''https://drive.google.com/uc?export=download&id='' @ ''FILEID123'' = sample_url"
  "name_of sample = ''Sample''"
proof -
  show "extractDriveFileId (JStr sample_link) = Some ''FILEID123''" by code_simp
  show "createSafeFilename ''Sample'' ''thumbnailImage'' (JStr sample_link) ''.tmp'' = sample_tmp"
    by code_simp
  show "''https://drive.google.com/uc?export=download&id='' @ ''FILEID123'' = sample_url"
    by (simp add: sample_url_def)
  show "name_of sample = ''Sample''" by (simp add: name_of_def sample_def)
qed




section \<open>File names and the frame of a download\<close>












subsection \<open>The frame of a download\<close>















section \<open>The names of the cache\<close>









subsection \<open>Entries that are kept\<close>









section \<open>Reconciliation\<close>

















section \<open>Two runs over the same directory\<close>

subsection \<open>What a run leaves in the fields\<close>










subsection \<open>A run over a directory that holds every artifact\<close>




subsection \<open>The two outputs\<close>



section \<open>Runs on the sample project\<close>







lemma sample_recognised: "recognised sample_link" "sample_link \<noteq> []"
  by (simp_all add: recognised_def sample_facts) (simp_all add: sample_link_def)




















subsection \<open>The sample project twice in the list\<close>




subsection \<open>The same link in two fields\<close>

lemma twice_cells:
  "cells twice ''thumbnailImage'' = sample_link"
  "cells twice ''workImage1'' = sample_link"
  "f \<noteq> ''thumbnailImage'' \<Longrightarrow> f \<noteq> ''workImage1'' \<Longrightarrow> cells twice f = []"
  "name_of twice = ''Sample''"
  by (simp_all add: twice_def sample_link_def name_of_def)


lemma recognised_fields_twice: "recognised_fields twice mediaFields = 2"
  by (simp add: recognised_fields_def mediaFields_def twice_cells sample_recognised)
    (simp add: recognised_def)

subsection \<open>A declared file name with no extension\<close>




section \<open>Idempotence of a run\<close>




section \<open>How often a field is fetched\<close>








section \<open>The values a run writes\<close>













end
